theory Spec2Isabelle
  imports Main
begin

section \<open>Machine-Spirit core: the configuration store and the path registry\<close>

text \<open>
  A shallow embedding of \<^verbatim>\<open>src/core/Config.cpp\<close> and \<^verbatim>\<open>src/core/Paths.cpp\<close>.
  The static variables of the two classes become fields of explicit state records, the
  disk becomes part of that state, and what the operating system answers (the value of
  the home variable, whether a directory can be made, whether a stream opens) is an
  explicit environment record. A call that does not return normally is a value
  \<open>Inl e\<close> of a sum type.
\<close>

subsection \<open>Environment and errors\<close>

text \<open>
  \<open>home\<close> is what \<^verbatim>\<open>getenv("HOME")\<close> (\<^verbatim>\<open>getenv("USERPROFILE")\<close> under
  \<^verbatim>\<open>_WIN32\<close>) returns: \<open>None\<close> is the null pointer of an unset variable.
  \<open>can_mkdir\<close> says whether \<^verbatim>\<open>std::filesystem::create_directories\<close> succeeds (its
  throwing overload is the one called). \<open>can_stat\<close> says whether the status of the
  config file's path can be read, so that \<^verbatim>\<open>std::filesystem::exists\<close> answers (its
  throwing overload is the one called; a path that is not there is an answer, a
  directory that may not be searched is not). \<open>readable\<close> and \<open>writable\<close> are the
  permissions on the file itself.
\<close>

record os_env =
  home :: "string option"
  can_mkdir :: bool
  can_stat :: bool
  readable :: bool
  writable :: bool

text \<open>
  Whether the \<^verbatim>\<open>std::ifstream\<close> and the \<^verbatim>\<open>std::ofstream\<close> on the config file open.
  Opening a file walks the same path as reading its status.
\<close>

definition can_read :: "os_env \<Rightarrow> bool" where
  "can_read e = (can_stat e \<and> readable e)"

definition can_write :: "os_env \<Rightarrow> bool" where
  "can_write e = (can_stat e \<and> writable e)"

text \<open>
  \<open>NullString\<close>: a \<^verbatim>\<open>std::string\<close> is constructed from the null pointer. The
  constructor's precondition is violated; the call does not produce a string (libstdc++
  throws \<^verbatim>\<open>std::logic_error\<close>, other libraries read through the null pointer).
  \<open>FilesystemError\<close>: \<^verbatim>\<open>create_directories\<close> throws
  \<^verbatim>\<open>std::filesystem::filesystem_error\<close>.
\<close>

datatype error = NullString | FilesystemError

definition std_string :: "string option \<Rightarrow> error + string" where
  "std_string p = (case p of None \<Rightarrow> Inl NullString | Some s \<Rightarrow> Inr s)"

definition create_directories :: "os_env \<Rightarrow> string \<Rightarrow> string set \<Rightarrow> error + string set" where
  "create_directories e p ds = (if can_mkdir e then Inr (insert p ds) else Inl FilesystemError)"

text \<open>
  \<^verbatim>\<open>std::filesystem::exists(p)\<close> on the files \<open>fs\<close> of the disk: it throws
  \<^verbatim>\<open>std::filesystem::filesystem_error\<close> when the status cannot be read.
\<close>

definition fs_exists :: "os_env \<Rightarrow> string \<Rightarrow> (string \<rightharpoonup> string) \<Rightarrow> error + bool" where
  "fs_exists e p fs = (if can_stat e then Inr (fs p \<noteq> None) else Inl FilesystemError)"

text \<open>The characters that a stream opened on \<open>p\<close> delivers.\<close>

definition stream_of :: "(string \<rightharpoonup> string) \<Rightarrow> string \<Rightarrow> string" where
  "stream_of fs p = (case fs p of None \<Rightarrow> [] | Some content \<Rightarrow> content)"

subsection \<open>Config: strings, lines and the table\<close>

abbreviation EQ :: char where "EQ \<equiv> CHR ''=''"
abbreviation NL :: char where "NL \<equiv> CHR 0x0A"

text \<open>\<^verbatim>\<open>line.find('=')\<close>: the index of the first occurrence, \<open>None\<close> for \<^verbatim>\<open>npos\<close>.\<close>

fun find_char :: "char \<Rightarrow> string \<Rightarrow> nat option" where
  "find_char c [] = None"
| "find_char c (x # xs) = (if x = c then Some 0 else map_option Suc (find_char c xs))"

text \<open>
  \<^verbatim>\<open>s.substr(pos, n)\<close> and \<^verbatim>\<open>s.substr(pos)\<close>. Both are only called with
  \<open>pos \<le> length s\<close> (see \<open>find_char_less\<close>), where they do not throw.
\<close>

definition substr :: "string \<Rightarrow> nat \<Rightarrow> nat \<Rightarrow> string" where
  "substr s pos n = take n (drop pos s)"

definition substr_from :: "string \<Rightarrow> nat \<Rightarrow> string" where
  "substr_from s pos = drop pos s"

text \<open>
  \<^verbatim>\<open>std::getline(in, line)\<close> on a stream whose unread characters are the argument:
  \<open>None\<close> when nothing can be extracted (the stream goes bad and the loop ends),
  otherwise the line without its newline and the characters left unread. A last line
  with no newline after it is still returned.
\<close>

definition getline :: "string \<Rightarrow> (string \<times> string) option" where
  "getline s =
     (if s = [] then None
      else Some (takeWhile (\<lambda>c. c \<noteq> NL) s, drop 1 (dropWhile (\<lambda>c. c \<noteq> NL) s)))"

text \<open>\<^verbatim>\<open>s_values.count(key)\<close> and \<^verbatim>\<open>s_values[key]\<close>; the latter inserts an
  empty string for a key that is absent, and returns the (possibly new) value.\<close>

definition count :: "(string \<rightharpoonup> string) \<Rightarrow> string \<Rightarrow> nat" where
  "count m k = (case m k of None \<Rightarrow> 0 | Some _ \<Rightarrow> 1)"

definition subscript :: "(string \<rightharpoonup> string) \<Rightarrow> string \<Rightarrow> string \<times> (string \<rightharpoonup> string)" where
  "subscript m k = (case m k of None \<Rightarrow> ([], m(k \<mapsto> [])) | Some v \<Rightarrow> (v, m))"

text \<open>\<^verbatim>\<open>s_values[key] = val\<close>\<close>

definition assign :: "(string \<rightharpoonup> string) \<Rightarrow> string \<Rightarrow> string \<Rightarrow> (string \<rightharpoonup> string)" where
  "assign m k v = (snd (subscript m k))(k \<mapsto> v)"

text \<open>The body of the \<^verbatim>\<open>while\<close> loop of \<^verbatim>\<open>Config::load\<close>, for one line.\<close>

definition process_line :: "string \<Rightarrow> (string \<rightharpoonup> string) \<Rightarrow> (string \<rightharpoonup> string)" where
  "process_line line m =
     (case find_char EQ line of
        None \<Rightarrow> m
      | Some pos \<Rightarrow>
          (let key = substr line 0 pos;
               val = substr_from line (pos + 1)
           in assign m key val))"

text \<open>The loop \<^verbatim>\<open>while (std::getline(in, line)) { ... }\<close> on the unread characters.\<close>

function load_loop :: "string \<Rightarrow> (string \<rightharpoonup> string) \<Rightarrow> (string \<rightharpoonup> string)" where
  "load_loop s m =
     (case getline s of
        None \<Rightarrow> m
      | Some (line, rest) \<Rightarrow> load_loop rest (process_line line m))"
  by pat_completeness auto
termination
  by (relation "measure (\<lambda>(s, m). length s)")
     (auto simp: getline_def less_Suc_eq_le neq_Nil_conv split: if_splits
           intro: le_trans[OF diff_le_self length_dropWhile_le])

text \<open>The lines that the loop reads from a file's content, in order.\<close>

function getlines :: "string \<Rightarrow> string list" where
  "getlines s =
     (case getline s of
        None \<Rightarrow> []
      | Some (line, rest) \<Rightarrow> line # getlines rest)"
  by pat_completeness auto
termination
  by (relation "measure length")
     (auto simp: getline_def less_Suc_eq_le neq_Nil_conv split: if_splits
           intro: le_trans[OF diff_le_self length_dropWhile_le])

text \<open>
  The key that the loop body reads from a line (\<open>None\<close> for a line it skips), and the
  keys read from a whole file.
\<close>

definition line_key :: "string \<Rightarrow> string option" where
  "line_key line = map_option (\<lambda>pos. substr line 0 pos) (find_char EQ line)"

definition keys_of_file :: "string \<Rightarrow> string set" where
  "keys_of_file content = set (List.map_filter line_key (getlines content))"

text \<open>
  What \<^verbatim>\<open>for (auto& [k, v] : s_values) out << k << "=" << v << "\n";\<close> writes.
  The order in which an \<^verbatim>\<open>unordered_map\<close> is iterated is up to the library, so it is
  a parameter: \<open>ord\<close> lists the keys as the iteration visits them.
\<close>

definition entry_line :: "(string \<rightharpoonup> string) \<Rightarrow> string \<Rightarrow> string" where
  "entry_line m k = (case m k of None \<Rightarrow> [] | Some v \<Rightarrow> k @ [EQ] @ v @ [NL])"

definition render :: "string list \<Rightarrow> (string \<rightharpoonup> string) \<Rightarrow> string" where
  "render ord m = concat (map (entry_line m) ord)"

text \<open>An iteration visits every key of the table, once.\<close>

definition iteration_order :: "string list \<Rightarrow> (string \<rightharpoonup> string) \<Rightarrow> bool" where
  "iteration_order ord m = (distinct ord \<and> set ord = dom m)"

text \<open>A string with no \<open>=\<close> and no newline in it.\<close>

definition plain :: "string \<Rightarrow> bool" where
  "plain s = (EQ \<notin> set s \<and> NL \<notin> set s)"

subsection \<open>Config: the operations\<close>

text \<open>
  \<open>s_values\<close> is the static table; \<open>files\<close> maps the path of every file on disk to
  its content, \<open>dirs\<close> is the set of directories that \<^verbatim>\<open>create_directories\<close> was
  asked for and made.
\<close>

record config_state =
  s_values :: "string \<rightharpoonup> string"
  files :: "string \<rightharpoonup> string"
  dirs :: "string set"

definition getConfigFilePath :: "os_env \<Rightarrow> error + string" where
  "getConfigFilePath e =
     (case std_string (home e) of
        Inl err \<Rightarrow> Inl err
      | Inr user \<Rightarrow> Inr (user @ ''/.machine_spirit/config.ini''))"

text \<open>
  \<^verbatim>\<open>std::filesystem::path(file).parent_path()\<close>, for a path with a directory part that
  is not the root directory, as every path of \<open>getConfigFilePath\<close> is: the file name
  and the separators before it are dropped.
\<close>

definition parent_path :: "string \<Rightarrow> string" where
  "parent_path p =
     rev (dropWhile (\<lambda>c. c = CHR ''/'') (dropWhile (\<lambda>c. c \<noteq> CHR ''/'') (rev p)))"

text \<open>
  \<^verbatim>\<open>Config::save\<close>. A stream that did not open ignores what is written to it, and
  the file is left as it was.
\<close>

definition save :: "os_env \<Rightarrow> string list \<Rightarrow> config_state \<Rightarrow> error + config_state" where
  "save e ord w =
     (case getConfigFilePath e of
        Inl err \<Rightarrow> Inl err
      | Inr file \<Rightarrow>
          (case create_directories e (parent_path file) (dirs w) of
             Inl err \<Rightarrow> Inl err
           | Inr ds \<Rightarrow>
               if can_write e
               then Inr (w\<lparr>files := (files w)(file \<mapsto> render ord (s_values w)), dirs := ds\<rparr>)
               else Inr (w\<lparr>dirs := ds\<rparr>)))"

text \<open>\<^verbatim>\<open>Config::load\<close>. \<open>ord\<close> is the iteration order of the \<open>save\<close> it may call.\<close>

definition load :: "os_env \<Rightarrow> string list \<Rightarrow> config_state \<Rightarrow> error + config_state" where
  "load e ord w =
     (case getConfigFilePath e of
        Inl err \<Rightarrow> Inl err
      | Inr file \<Rightarrow>
          (case fs_exists e file (files w) of
             Inl err \<Rightarrow> Inl err
           | Inr there \<Rightarrow>
               if \<not> there then save e ord w
               else if \<not> can_read e then Inr w
               else Inr (w\<lparr>s_values := load_loop (stream_of (files w) file) (s_values w)\<rparr>)))"

text \<open>\<^verbatim>\<open>Config::get\<close>: the value returned and the state it leaves.\<close>

definition get :: "string \<Rightarrow> config_state \<Rightarrow> string \<times> config_state" where
  "get key w =
     (if count (s_values w) key \<noteq> 0
      then (case subscript (s_values w) key of (v, m) \<Rightarrow> (v, w\<lparr>s_values := m\<rparr>))
      else ([], w))"

text \<open>\<^verbatim>\<open>Config::set\<close> (\<open>set\<close> itself is the set of a list's elements in HOL).\<close>

definition set_value :: "os_env \<Rightarrow> string list \<Rightarrow> string \<Rightarrow> string \<Rightarrow> config_state \<Rightarrow> error + config_state" where
  "set_value e ord key val w = save e ord (w\<lparr>s_values := assign (s_values w) key val\<rparr>)"

subsection \<open>Paths\<close>

text \<open>\<open>s_root\<close> is the static string, \<open>made\<close> the directories on disk.\<close>

record paths_state =
  s_root :: string
  made :: "string set"

text \<open>The state before any call: \<^verbatim>\<open>std::string Paths::s_root = "";\<close>\<close>

definition paths_initial :: "string set \<Rightarrow> paths_state" where
  "paths_initial ds = \<lparr>s_root = [], made = ds\<rparr>"

definition root :: "paths_state \<Rightarrow> string" where "root p = s_root p"
definition config :: "paths_state \<Rightarrow> string" where "config p = s_root p @ ''config/''"
definition logs :: "paths_state \<Rightarrow> string" where "logs p = s_root p @ ''logs/''"
definition models :: "paths_state \<Rightarrow> string" where "models p = s_root p @ ''models/''"
definition knowledge :: "paths_state \<Rightarrow> string" where "knowledge p = s_root p @ ''knowledge/''"
definition memory :: "paths_state \<Rightarrow> string" where "memory p = s_root p @ ''memory/''"
definition backups :: "paths_state \<Rightarrow> string" where "backups p = s_root p @ ''backups/''"
definition themes :: "paths_state \<Rightarrow> string" where "themes p = s_root p @ ''themes/''"
definition hive :: "paths_state \<Rightarrow> string" where "hive p = s_root p @ ''hive/''"
definition tmp :: "paths_state \<Rightarrow> string" where "tmp p = s_root p @ ''tmp/''"

text \<open>One \<^verbatim>\<open>std::filesystem::create_directories(...)\<close> statement of \<^verbatim>\<open>Paths::init\<close>,
  after the statements before it have returned.\<close>

definition mkdir_step :: "os_env \<Rightarrow> (paths_state \<Rightarrow> string) \<Rightarrow> error + paths_state \<Rightarrow> error + paths_state" where
  "mkdir_step e accessor r =
     (case r of
        Inl err \<Rightarrow> Inl err
      | Inr p \<Rightarrow>
          (case create_directories e (accessor p) (made p) of
             Inl err \<Rightarrow> Inl err
           | Inr ds \<Rightarrow> Inr (p\<lparr>made := ds\<rparr>)))"

definition init :: "os_env \<Rightarrow> paths_state \<Rightarrow> error + paths_state" where
  "init e p =
     (case std_string (home e) of
        Inl err \<Rightarrow> Inl err
      | Inr user \<Rightarrow>
          mkdir_step e tmp (mkdir_step e hive (mkdir_step e themes (mkdir_step e backups
            (mkdir_step e memory (mkdir_step e knowledge (mkdir_step e models
              (mkdir_step e logs (mkdir_step e config
                (Inr (p\<lparr>s_root := user @ ''/.machine_spirit/''\<rparr>)))))))))))"

subsection \<open>Example environment and states\<close>

definition env0 :: os_env where
  "env0 = \<lparr>home = Some ''/home/u'', can_mkdir = True, can_stat = True,
            readable = True, writable = True\<rparr>"

definition cfg0 :: config_state where
  "cfg0 = \<lparr>s_values = Map.empty, files = Map.empty, dirs = {}\<rparr>"

definition cfg1 :: config_state where
  "cfg1 = \<lparr>s_values = [''c'' \<mapsto> ''3''],
           files = [''/home/u/.machine_spirit/config.ini'' \<mapsto> ''a=b=c'' @ [NL] @ ''novalue'' @ [NL]],
           dirs = {}\<rparr>"

section \<open>Properties\<close>

declare load_loop.simps [simp del] getlines.simps [simp del]

subsection \<open>Strings, lines and the loop\<close>

lemma find_char_None: "find_char c s = None \<longleftrightarrow> c \<notin> set s"
  by (induction s) auto

lemma find_char_less: "find_char c s = Some p \<Longrightarrow> p < length s"
  by (induction s arbitrary: p) (auto split: if_splits)

lemma find_char_first: "c \<notin> set k \<Longrightarrow> find_char c (k @ c # v) = Some (length k)"
  by (induction k) auto

lemma assign_upd: "assign m k v = m(k \<mapsto> v)"
  by (auto simp: assign_def subscript_def split: option.splits)

lemma process_line_skip: "EQ \<notin> set line \<Longrightarrow> process_line line m = m"
  by (simp add: process_line_def find_char_None[THEN iffD2])

lemma process_line_split:
  "EQ \<notin> set k \<Longrightarrow> process_line (k @ EQ # v) m = m(k \<mapsto> v)"
  by (simp add: process_line_def find_char_first substr_def substr_from_def assign_upd)

lemma getline_Nil: "getline [] = None"
  by (simp add: getline_def)

lemma getline_line: "NL \<notin> set l \<Longrightarrow> getline (l @ NL # rest) = Some (l, rest)"
proof -
  have "\<And>x. x \<in> set l \<Longrightarrow> x \<noteq> NL" if "NL \<notin> set l" using that by auto
  then show "NL \<notin> set l \<Longrightarrow> getline (l @ NL # rest) = Some (l, rest)"
    by (simp add: getline_def)
qed

lemma getline_last: "NL \<notin> set l \<Longrightarrow> l \<noteq> [] \<Longrightarrow> getline l = Some (l, [])"
proof -
  assume a: "NL \<notin> set l" "l \<noteq> []"
  have nl: "\<forall>x\<in>set l. x \<noteq> NL"
    using a(1) by blast
  have t: "takeWhile (\<lambda>c. c \<noteq> NL) l = l"
    using nl by simp
  have d: "dropWhile (\<lambda>c. c \<noteq> NL) l = []"
    using nl by simp
  show ?thesis unfolding getline_def t d using a(2) by simp
qed

lemma load_loop_fold: "load_loop s m = fold process_line (getlines s) m"
proof (induction s arbitrary: m rule: getlines.induct)
  case (1 s)
  show ?case
  proof (cases "getline s")
    case None
    then show ?thesis by (simp add: load_loop.simps[of s] getlines.simps[of s])
  next
    case (Some a)
    obtain line rest where a: "a = (line, rest)" by (cases a)
    with Some 1 show ?thesis
     by (simp add: load_loop.simps[of s] getlines.simps[of s])
  qed
qed

lemma process_line_add: "process_line l m = m ++ process_line l Map.empty"
proof (cases "EQ \<in> set l")
  case False
  then show ?thesis by (simp add: process_line_skip)
next
  case True
  then obtain k v where "l = k @ EQ # v" "EQ \<notin> set k"
    by (meson split_list_first)
  then show ?thesis by (simp add: process_line_split)
qed

lemma fold_process_line_add:
  "fold process_line ls m = m ++ fold process_line ls Map.empty"
proof (induction ls arbitrary: m)
  case Nil
  then show ?case by simp
next
  case (Cons l ls)
  have "fold process_line (l # ls) m = fold process_line ls (process_line l m)" by simp
  also have "\<dots> = process_line l m ++ fold process_line ls Map.empty" by (rule Cons.IH)
  also have "\<dots> = (m ++ process_line l Map.empty) ++ fold process_line ls Map.empty"
    using process_line_add[of l m] by simp
  also have "\<dots> = m ++ (process_line l Map.empty ++ fold process_line ls Map.empty)"
    by simp
  also have "process_line l Map.empty ++ fold process_line ls Map.empty
      = fold process_line ls (process_line l Map.empty)"
    by (rule Cons.IH[symmetric])
  finally show ?case by simp
qed

lemma load_loop_add: "load_loop s m = m ++ load_loop s Map.empty"
  using fold_process_line_add[of "getlines s" m] by (simp add: load_loop_fold)


subsection \<open>Config: get, set and save\<close>

lemma get_value: "fst (get key w) = (case s_values w key of None \<Rightarrow> [] | Some v \<Rightarrow> v)"
  by (simp add: get_def count_def subscript_def split: option.splits)

lemma get_state: "snd (get key w) = w"
  by (simp add: get_def count_def subscript_def split: option.splits)

lemma save_s_values: "save e ord w = Inr w' \<Longrightarrow> s_values w' = s_values w"
  by (auto simp: save_def split: sum.splits if_splits)

lemma getConfigFilePath_home:
  "home e = Some h \<Longrightarrow> getConfigFilePath e = Inr (h @ ''/.machine_spirit/config.ini'')"
  by (simp add: getConfigFilePath_def std_string_def)

lemma parent_path_config: "parent_path (h @ ''/.machine_spirit/config.ini'') = h @ ''/.machine_spirit''"
  by (simp add: parent_path_def)

text \<open>
  Claim C3. \<open>get key\<close> returns the stored value when the key is in the table and the
  empty string when it is not. So \<open>get k\<close> in the state that \<open>set k v\<close> returns
  gives \<open>v\<close>, and a key stored with the empty string gives the same answer as a key
  that is absent.
\<close>

theorem get_stored_or_empty:
  "(s_values w key = Some v \<longrightarrow> fst (get key w) = v) \<and>
   (s_values w key = None \<longrightarrow> fst (get key w) = []) \<and>
   (set_value e ord key v w = Inr w' \<longrightarrow> fst (get key w') = v) \<and>
   (s_values w key = Some [] \<and> s_values u key = None \<longrightarrow> fst (get key w) = fst (get key u))"
proof -
  have "fst (get key w') = v" if "set_value e ord key v w = Inr w'"
  proof -
    have "s_values w' = assign (s_values w) key v"
      using save_s_values [OF that [unfolded set_value_def]] by simp
    then show ?thesis by (simp add: get_value assign_upd)
  qed
  then show ?thesis by (simp add: get_value)
qed

text \<open>The statement at a concrete table: \<open>set\<close> returns, and \<open>get\<close> reads the value back.\<close>

theorem get_stored_or_empty_witness:
  "set_value env0 [''k''] ''k'' ''v'' cfg0 =
     Inr \<lparr>s_values = [''k'' \<mapsto> ''v''],
          files = [''/home/u/.machine_spirit/config.ini'' \<mapsto> ''k=v'' @ [NL]],
          dirs = {''/home/u/.machine_spirit''}\<rparr> \<and>
   fst (get ''k'' \<lparr>s_values = [''k'' \<mapsto> ''v''],
          files = [''/home/u/.machine_spirit/config.ini'' \<mapsto> ''k=v'' @ [NL]],
          dirs = {''/home/u/.machine_spirit''}\<rparr>) = ''v'' \<and>
   fst (get ''j'' cfg0) = [] \<and>
   fst (get ''k'' (cfg0\<lparr>s_values := [''k'' \<mapsto> []]\<rparr>)) = fst (get ''k'' cfg0)"
proof -
  have s: "set_value env0 [''k''] ''k'' ''v'' cfg0 =
     Inr \<lparr>s_values = [''k'' \<mapsto> ''v''],
          files = [''/home/u/.machine_spirit/config.ini'' \<mapsto> ''k=v'' @ [NL]],
          dirs = {''/home/u/.machine_spirit''}\<rparr>"
    by (simp add: set_value_def save_def getConfigFilePath_def std_string_def env0_def can_read_def can_write_def cfg0_def
        create_directories_def parent_path_def assign_upd render_def entry_line_def)
  let ?w1 = "\<lparr>s_values = [''k'' \<mapsto> ''v''],
          files = [''/home/u/.machine_spirit/config.ini'' \<mapsto> ''k=v'' @ [NL]],
          dirs = {''/home/u/.machine_spirit''}\<rparr>"
  have a: "fst (get ''k'' ?w1) = ''v''"
    using s get_stored_or_empty [where w = cfg0 and key = "''k''" and v = "''v''"
        and e = env0 and ord = "[''k'']" and w' = ?w1]
    by simp
  have b: "fst (get ''j'' cfg0) = []"
    using get_stored_or_empty [where w = cfg0 and key = "''j''"]
    by (simp add: cfg0_def)
  have c: "fst (get ''k'' (cfg0\<lparr>s_values := [''k'' \<mapsto> []]\<rparr>)) = fst (get ''k'' cfg0)"
    using get_stored_or_empty [where w = "cfg0\<lparr>s_values := [''k'' \<mapsto> []]\<rparr>"
        and key = "''k''" and u = cfg0]
    by (simp add: cfg0_def)
  from s a b c show ?thesis by blast
qed

text \<open>
  Claim C10. \<open>get key\<close> returns the state it was given: it inserts nothing. For an
  absent key it returns the empty string, the key is still absent afterwards, so no
  iteration of the table visits it, and a \<open>save\<close> that follows writes what it would
  have written before the query.
\<close>

theorem get_leaves_mapping:
  "snd (get key w) = w \<and>
   (s_values w key = None \<longrightarrow>
      fst (get key w) = [] \<and> s_values (snd (get key w)) key = None \<and>
      (\<forall>ord. iteration_order ord (s_values (snd (get key w))) \<longrightarrow>
         key \<notin> set ord \<and> save e ord (snd (get key w)) = save e ord w))"
  by (auto simp: get_value get_state iteration_order_def)

text \<open>The statement at a table with one entry, queried at another key.\<close>

theorem get_leaves_mapping_witness:
  "snd (get ''j'' (cfg0\<lparr>s_values := [''k'' \<mapsto> ''v'']\<rparr>)) = cfg0\<lparr>s_values := [''k'' \<mapsto> ''v'']\<rparr> \<and>
   fst (get ''j'' (cfg0\<lparr>s_values := [''k'' \<mapsto> ''v'']\<rparr>)) = [] \<and>
   iteration_order [''k''] (s_values (snd (get ''j'' (cfg0\<lparr>s_values := [''k'' \<mapsto> ''v'']\<rparr>)))) \<and>
   ''j'' \<notin> set [''k''] \<and>
   save env0 [''k''] (snd (get ''j'' (cfg0\<lparr>s_values := [''k'' \<mapsto> ''v'']\<rparr>))) =
     Inr \<lparr>s_values = [''k'' \<mapsto> ''v''],
          files = [''/home/u/.machine_spirit/config.ini'' \<mapsto> ''k=v'' @ [NL]],
          dirs = {''/home/u/.machine_spirit''}\<rparr>"
proof -
  have s: "save env0 [''k''] (cfg0\<lparr>s_values := [''k'' \<mapsto> ''v'']\<rparr>) =
     Inr \<lparr>s_values = [''k'' \<mapsto> ''v''],
          files = [''/home/u/.machine_spirit/config.ini'' \<mapsto> ''k=v'' @ [NL]],
          dirs = {''/home/u/.machine_spirit''}\<rparr>"
    by (simp add: save_def getConfigFilePath_def std_string_def env0_def can_read_def can_write_def cfg0_def
        create_directories_def parent_path_def render_def entry_line_def)
  have i: "iteration_order [''k''] (s_values (cfg0\<lparr>s_values := [''k'' \<mapsto> ''v'']\<rparr>))"
    by (simp add: iteration_order_def cfg0_def)
  show ?thesis
    using s i get_leaves_mapping [of "''j''" "cfg0\<lparr>s_values := [''k'' \<mapsto> ''v'']\<rparr>" env0]
    by (simp add: cfg0_def)
qed

subsection \<open>Paths\<close>

lemma mkdir_step_ok:
  "can_mkdir e \<Longrightarrow> mkdir_step e f (Inr p) = Inr (p\<lparr>made := insert (f p) (made p)\<rparr>)"
  by (simp add: mkdir_step_def create_directories_def)

lemma mkdir_step_fails: "\<not> can_mkdir e \<Longrightarrow> mkdir_step e f r = Inl (case r of Inl err \<Rightarrow> err | Inr _ \<Rightarrow> FilesystemError)"
  by (simp add: mkdir_step_def create_directories_def split: sum.splits)

lemma init_ok:
  assumes "home e = Some h" and "can_mkdir e"
  shows "init e p = Inr \<lparr>s_root = h @ ''/.machine_spirit/'',
            made = {h @ ''/.machine_spirit/tmp/'', h @ ''/.machine_spirit/hive/'',
                    h @ ''/.machine_spirit/themes/'', h @ ''/.machine_spirit/backups/'',
                    h @ ''/.machine_spirit/memory/'', h @ ''/.machine_spirit/knowledge/'',
                    h @ ''/.machine_spirit/models/'', h @ ''/.machine_spirit/logs/'',
                    h @ ''/.machine_spirit/config/''} \<union> made p\<rparr>"
  using assms
  by (simp add: init_def std_string_def mkdir_step_ok config_def logs_def models_def
      knowledge_def memory_def backups_def themes_def hive_def tmp_def)

lemma init_unset: "home e = None \<Longrightarrow> init e p = Inl NullString"
  by (simp add: init_def std_string_def)

lemma init_s_root:
  assumes "init e p = Inr q"
  shows "\<exists>h. home e = Some h \<and> s_root q = h @ ''/.machine_spirit/''"
proof (cases "home e")
  case None
  with assms show ?thesis by (simp add: init_unset)
next
  case (Some h)
  show ?thesis
  proof (cases "can_mkdir e")
    case True
    with Some assms show ?thesis by (auto simp: init_ok)
  next
    case False
    with Some assms show ?thesis
      by (simp add: init_def std_string_def mkdir_step_fails)
  qed
qed

text \<open>
  Claim C6. In every state of the stored root path, before or after \<open>init\<close>, each of
  the nine category accessors returns \<open>root\<close> followed by its category name and a
  slash. An accessor is a function of the state to a string: it returns no new state,
  and it answers in the initial state too, where the root is empty.
\<close>

theorem accessors_root_plus_category:
  "config p = root p @ ''config/'' \<and> logs p = root p @ ''logs/'' \<and>
   models p = root p @ ''models/'' \<and> knowledge p = root p @ ''knowledge/'' \<and>
   memory p = root p @ ''memory/'' \<and> backups p = root p @ ''backups/'' \<and>
   themes p = root p @ ''themes/'' \<and> hive p = root p @ ''hive/'' \<and>
   tmp p = root p @ ''tmp/'' \<and>
   [config (paths_initial ds), logs (paths_initial ds), models (paths_initial ds),
    knowledge (paths_initial ds), memory (paths_initial ds), backups (paths_initial ds),
    themes (paths_initial ds), hive (paths_initial ds), tmp (paths_initial ds)] =
   [''config/'', ''logs/'', ''models/'', ''knowledge/'', ''memory/'', ''backups/'',
    ''themes/'', ''hive/'', ''tmp/'']"
  by (simp add: root_def config_def logs_def models_def knowledge_def memory_def
      backups_def themes_def hive_def tmp_def paths_initial_def)

text \<open>
  Claim C7. \<open>root\<close> returns the empty string in the initial state, where \<open>init\<close> has
  not been called; in a state that \<open>init\<close> returned it is the value of the home
  variable followed by \<open>/.machine_spirit/\<close>, and \<open>init\<close> does return such a state
  when the variable is set and the directories can be made.
\<close>

theorem root_empty_then_home:
  "root (paths_initial ds) = [] \<and>
   (init e p = Inr q \<longrightarrow> (\<exists>h. home e = Some h \<and> root q = h @ ''/.machine_spirit/'')) \<and>
   (home e = Some h \<and> can_mkdir e \<longrightarrow>
      (\<exists>q. init e p = Inr q \<and> root q = h @ ''/.machine_spirit/''))"
  using init_s_root [of e p q] init_ok [of e h p]
  by (simp add: root_def paths_initial_def)

text \<open>The statement at the example environment, whose home is \<open>/home/u\<close>.\<close>

theorem root_empty_then_home_witness:
  "root (paths_initial {}) = [] \<and>
   (\<exists>q. init env0 (paths_initial {}) = Inr q \<and> root q = ''/home/u/.machine_spirit/'')"
  using root_empty_then_home [of "{}" env0 "paths_initial {}" _ "''/home/u''"]
  by (simp add: env0_def can_read_def can_write_def)

text \<open>
  Claim C8 says that with the home variable unset \<open>init\<close> and \<open>getConfigFilePath\<close>
  still complete, the null value concatenated into the path. They do not: both start by
  constructing a \<^verbatim>\<open>std::string\<close> from the null pointer that \<^verbatim>\<open>getenv\<close> returned,
  and neither produces a path.
\<close>

theorem unset_home_counterexample:
  "getConfigFilePath (env0\<lparr>home := None\<rparr>) = Inl NullString \<and>
   init (env0\<lparr>home := None\<rparr>) (paths_initial {}) = Inl NullString"
  by (simp add: getConfigFilePath_def init_def std_string_def)

text \<open>
  Claim C8, amended. With the home variable set, to the empty string or to any other
  value, \<open>getConfigFilePath\<close> returns that value followed by
  \<open>/.machine_spirit/config.ini\<close>, and \<open>init\<close>, where the directories can be made,
  returns with the root that value followed by \<open>/.machine_spirit/\<close>.
\<close>

theorem set_home_concatenated:
  "home e = Some h \<longrightarrow>
     getConfigFilePath e = Inr (h @ ''/.machine_spirit/config.ini'') \<and>
     (can_mkdir e \<longrightarrow> (\<exists>q. init e p = Inr q \<and> root q = h @ ''/.machine_spirit/''))"
  using init_ok [of e h p]
  by (simp add: getConfigFilePath_def std_string_def root_def)

text \<open>The amended statement at the empty home value.\<close>

theorem set_home_concatenated_witness:
  "getConfigFilePath (env0\<lparr>home := Some []\<rparr>) = Inr ''/.machine_spirit/config.ini'' \<and>
   (\<exists>q. init (env0\<lparr>home := Some []\<rparr>) (paths_initial {}) = Inr q \<and> root q = ''/.machine_spirit/'')"
  using set_home_concatenated [of "env0\<lparr>home := Some []\<rparr>" "[]" "paths_initial {}"]
  by (simp add: env0_def can_read_def can_write_def)

subsection \<open>Config: load\<close>

lemma getlines_Nil: "getlines [] = []"
  by (simp add: getlines.simps[of "[]"] getline_Nil)

lemma getlines_line: "NL \<notin> set l \<Longrightarrow> getlines (l @ NL # rest) = l # getlines rest"
  by (simp add: getlines.simps[of "l @ NL # rest"] getline_line)

lemma load_existing:
  assumes "getConfigFilePath e = Inr path" and "can_stat e" and "files w path = Some content"
  shows "load e ord w =
    Inr (if can_read e then w\<lparr>s_values := fold process_line (getlines content) (s_values w)\<rparr> else w)"
  using assms by (simp add: load_def fs_exists_def stream_of_def load_loop_fold)

lemma load_missing:
  assumes "getConfigFilePath e = Inr path" and "can_stat e" and "files w path = None"
  shows "load e ord w = save e ord w"
  using assms by (simp add: load_def fs_exists_def)

lemma load_no_status:
  assumes "getConfigFilePath e = Inr path" and "\<not> can_stat e"
  shows "load e ord w = Inl FilesystemError"
  using assms by (simp add: load_def fs_exists_def)

lemma load_returns_status: "load e ord w = Inr w' \<Longrightarrow> can_stat e"
  by (auto simp: load_def fs_exists_def split: sum.splits if_splits)

lemma can_read_stat: "can_read e \<Longrightarrow> can_stat e"
  by (simp add: can_read_def)

lemma can_write_stat: "can_write e \<Longrightarrow> can_stat e"
  by (simp add: can_write_def)

lemma env0_flags:
  "home env0 = Some ''/home/u''" "can_mkdir env0" "can_stat env0" "can_read env0" "can_write env0"
  by (simp_all add: env0_def can_read_def can_write_def)

lemma env0_path: "getConfigFilePath env0 = Inr ''/home/u/.machine_spirit/config.ini''"
  by (simp add: getConfigFilePath_def std_string_def env0_def)

lemma save_ok:
  assumes "getConfigFilePath e = Inr path" and "can_mkdir e" and "can_write e"
  shows "save e ord w =
    Inr (w\<lparr>files := (files w)(path \<mapsto> render ord (s_values w)),
           dirs := insert (parent_path path) (dirs w)\<rparr>)"
  using assms by (simp add: save_def create_directories_def)

lemma render_empty: "render ord Map.empty = []"
  by (simp add: render_def entry_line_def)

text \<open>
  Claim C2. For a line that \<open>load\<close> processes: a line with no \<open>=\<close> adds no entry;
  otherwise the key is what stands before the first \<open>=\<close> and the value is all that
  stands after it, further \<open>=\<close> included, and the entry replaces what the table had
  for the key. The line \<open>a=b=c\<close> gives key \<open>a\<close>, value \<open>b=c\<close>. \<open>load\<close> of a file
  that exists and opens applies this to the lines of the file, in order.
\<close>

theorem load_line_by_line:
  "(EQ \<notin> set line \<longrightarrow> process_line line m = m) \<and>
   (EQ \<notin> set k \<longrightarrow> process_line (k @ [EQ] @ v) m = m(k \<mapsto> v)) \<and>
   process_line ''a=b=c'' m = m(''a'' \<mapsto> ''b=c'') \<and>
   (getConfigFilePath e = Inr path \<and> files w path = Some content \<and> can_read e \<longrightarrow>
      load e ord w = Inr (w\<lparr>s_values := fold process_line (getlines content) (s_values w)\<rparr>))"
proof -
  have 1: "process_line ''a=b=c'' m = m(''a'' \<mapsto> ''b=c'')"
    using process_line_split [of "''a''" "''b=c''" m] by simp
  have 2: "load e ord w = Inr (w\<lparr>s_values := fold process_line (getlines content) (s_values w)\<rparr>)"
    if "getConfigFilePath e = Inr path" and "files w path = Some content" and "can_read e"
    using load_existing [OF that(1) can_read_stat [OF that(3)] that(2), of ord] that(3) by simp
  from 1 2 show ?thesis
    by (simp add: process_line_skip process_line_split)
qed

text \<open>The statement at the lines \<open>novalue\<close>, \<open>a=b=c\<close> and \<open>c=4\<close>, and at a file.\<close>

theorem load_line_by_line_witness:
  "process_line ''novalue'' [''c'' \<mapsto> ''3''] = [''c'' \<mapsto> ''3''] \<and>
   process_line ''a=b=c'' [''c'' \<mapsto> ''3''] = [''c'' \<mapsto> ''3'', ''a'' \<mapsto> ''b=c''] \<and>
   process_line ''c=4'' [''c'' \<mapsto> ''3''] = [''c'' \<mapsto> ''4''] \<and>
   load env0 [] cfg1 = Inr (cfg1\<lparr>s_values := [''c'' \<mapsto> ''3'', ''a'' \<mapsto> ''b=c'']\<rparr>)"
proof -
  have g: "getlines (''a=b=c'' @ [NL] @ ''novalue'' @ [NL]) = [''a=b=c'', ''novalue'']"
    using getlines_line [of "''a=b=c''" "''novalue'' @ [NL]"] getlines_line [of "''novalue''" "[]"]
    by (simp add: getlines_Nil)
  have a: "process_line ''novalue'' [''c'' \<mapsto> ''3''] = [''c'' \<mapsto> ''3'']"
    using load_line_by_line [where line = "''novalue''" and m = "[''c'' \<mapsto> ''3'']"] by simp
  have b: "process_line ''a=b=c'' [''c'' \<mapsto> ''3''] = [''c'' \<mapsto> ''3'', ''a'' \<mapsto> ''b=c'']"
    using load_line_by_line [where k = "''a''" and v = "''b=c''" and m = "[''c'' \<mapsto> ''3'']"] by simp
  have c: "process_line ''c=4'' [''c'' \<mapsto> ''3''] = [''c'' \<mapsto> ''4'']"
    using load_line_by_line [where k = "''c''" and v = "''4''" and m = "[''c'' \<mapsto> ''3'']"] by simp
  have d: "load env0 [] cfg1 = Inr (cfg1\<lparr>s_values := [''c'' \<mapsto> ''3'', ''a'' \<mapsto> ''b=c'']\<rparr>)"
    using load_line_by_line [where e = env0 and w = cfg1
        and path = "''/home/u/.machine_spirit/config.ini''"
        and content = "''a=b=c'' @ [NL] @ ''novalue'' @ [NL]" and ord = "[]"]
      g a b env0_path env0_flags
    by (simp add: cfg1_def process_line_skip)
  from a b c d show ?thesis by blast
qed

lemma line_key_Some: "line_key l = Some k \<Longrightarrow> \<exists>v. l = k @ EQ # v \<and> EQ \<notin> set k"
proof -
  assume a: "line_key l = Some k"
  then have "EQ \<in> set l"
    using find_char_None [of EQ l] by (auto simp: line_key_def)
  then obtain k' v where l: "l = k' @ EQ # v" "EQ \<notin> set k'"
    by (meson split_list_first)
  with a have "k = k'"
    by (simp add: line_key_def find_char_first substr_def)
  with l show ?thesis by blast
qed

lemma line_key_split: "EQ \<notin> set k \<Longrightarrow> line_key (k @ EQ # v) = Some k"
  by (simp add: line_key_def find_char_first substr_def)

lemma process_line_other:
  "line_key l \<noteq> Some k \<Longrightarrow> process_line l m k = m k"
proof (cases "EQ \<in> set l")
  case False
  then show ?thesis by (simp add: process_line_skip)
next
  case True
  then obtain k' v where l: "l = k' @ EQ # v" "EQ \<notin> set k'"
    by (meson split_list_first)
  assume "line_key l \<noteq> Some k"
  with l have "k' \<noteq> k" by (simp add: line_key_split)
  with l show ?thesis by (simp add: process_line_split)
qed

lemma fold_process_line_other:
  "k \<notin> set (List.map_filter line_key ls) \<Longrightarrow> fold process_line ls m k = m k"
proof (induction ls arbitrary: m)
  case Nil
  then show ?case by simp
next
  case (Cons l ls)
  from Cons.prems have 1: "line_key l \<noteq> Some k"
    and 2: "k \<notin> set (List.map_filter line_key ls)"
    by (auto split: option.splits)
  show ?case using Cons.IH [OF 2] process_line_other [OF 1] by simp
qed

lemma keys_of_file_iff:
  "k \<in> keys_of_file content \<longleftrightarrow>
     (\<exists>l\<in>set (getlines content). \<exists>v. l = k @ EQ # v \<and> EQ \<notin> set k)"
proof
  assume "k \<in> keys_of_file content"
  then obtain l where "l \<in> set (getlines content)" "line_key l = Some k"
    by (force simp: keys_of_file_def map_filter_def)
  then show "\<exists>l\<in>set (getlines content). \<exists>v. l = k @ EQ # v \<and> EQ \<notin> set k"
    using line_key_Some by blast
next
  assume "\<exists>l\<in>set (getlines content). \<exists>v. l = k @ EQ # v \<and> EQ \<notin> set k"
  then obtain l v where "l \<in> set (getlines content)" "l = k @ EQ # v" "EQ \<notin> set k"
    by blast
  then have "l \<in> set (getlines content)" "line_key l = Some k"
    by (simp_all add: line_key_split)
  then show "k \<in> keys_of_file content"
    by (force simp: keys_of_file_def map_filter_def)
qed

lemma load_loop_dom: "dom m \<subseteq> dom (load_loop s m)"
  using load_loop_add [of s m] by (metis dom_map_add Un_upper2)

lemma load_dom:
  assumes "load e ord w = Inr w'"
  shows "dom (s_values w) \<subseteq> dom (s_values w')"
proof (cases "getConfigFilePath e")
  case (Inl err)
  with assms show ?thesis by (simp add: load_def)
next
  case (Inr path)
  have st: "can_stat e" using assms by (rule load_returns_status)
  show ?thesis
  proof (cases "files w path")
    case None
    with Inr st assms have "save e ord w = Inr w'" by (simp add: load_missing)
    then show ?thesis by (simp add: save_s_values)
  next
    case (Some content)
    with Inr st assms show ?thesis
      using load_loop_dom [of "s_values w" content]
      by (auto simp: load_existing load_loop_fold split: if_splits)
  qed
qed

text \<open>
  Claim C9. \<open>load\<close> removes no entry, and it only writes the keys it reads from the
  file: an entry of the table whose key is not read from the file is the same after
  \<open>load\<close> as before, also when there is no file to read. \<open>load\<close> merges the file
  into the table.
\<close>

theorem load_keeps_other_keys:
  "getConfigFilePath e = Inr path \<and> load e ord w = Inr w' \<longrightarrow>
     dom (s_values w) \<subseteq> dom (s_values w') \<and>
     ((\<forall>content. files w path = Some content \<longrightarrow> k \<notin> keys_of_file content)
        \<longrightarrow> s_values w' k = s_values w k)"
proof (intro impI conjI)
  assume "getConfigFilePath e = Inr path \<and> load e ord w = Inr w'"
  then show "dom (s_values w) \<subseteq> dom (s_values w')"
    using load_dom by blast
next
  assume pl: "getConfigFilePath e = Inr path \<and> load e ord w = Inr w'"
    and k: "\<forall>content. files w path = Some content \<longrightarrow> k \<notin> keys_of_file content"
  from pl have p: "getConfigFilePath e = Inr path" and l: "load e ord w = Inr w'"
    by simp_all
  have st: "can_stat e" using l by (rule load_returns_status)
  show "s_values w' k = s_values w k"
  proof (cases "files w path")
    case None
    with p st l have "save e ord w = Inr w'" by (simp add: load_missing)
    then show ?thesis by (simp add: save_s_values)
  next
    case (Some content)
    with k have "k \<notin> set (List.map_filter line_key (getlines content))"
      by (simp add: keys_of_file_def)
    then have "fold process_line (getlines content) (s_values w) k = s_values w k"
      by (rule fold_process_line_other)
    with p st l Some show ?thesis by (auto simp: load_existing split: if_splits)
  qed
qed

text \<open>The statement at a store holding \<open>c\<close> and a file whose only key is \<open>a\<close>.\<close>

theorem load_keeps_other_keys_witness:
  "load env0 [] cfg1 = Inr (cfg1\<lparr>s_values := [''c'' \<mapsto> ''3'', ''a'' \<mapsto> ''b=c'']\<rparr>) \<and>
   keys_of_file (''a=b=c'' @ [NL] @ ''novalue'' @ [NL]) = {''a''} \<and>
   s_values (cfg1\<lparr>s_values := [''c'' \<mapsto> ''3'', ''a'' \<mapsto> ''b=c'']\<rparr>) ''c'' = s_values cfg1 ''c''"
proof -
  have g: "getlines (''a=b=c'' @ [NL] @ ''novalue'' @ [NL]) = [''a=b=c'', ''novalue'']"
    using getlines_line [of "''a=b=c''" "''novalue'' @ [NL]"] getlines_line [of "''novalue''" "[]"]
    by (simp add: getlines_Nil)
  have p: "getConfigFilePath env0 = Inr ''/home/u/.machine_spirit/config.ini''"
    by (simp add: getConfigFilePath_def std_string_def env0_def can_read_def can_write_def)
  have f: "files cfg1 ''/home/u/.machine_spirit/config.ini'' = Some (''a=b=c'' @ [NL] @ ''novalue'' @ [NL])"
    by (simp add: cfg1_def)
  have a: "process_line ''a=b=c'' [''c'' \<mapsto> ''3''] = [''c'' \<mapsto> ''3'', ''a'' \<mapsto> ''b=c'']"
    using process_line_split [of "''a''" "''b=c''"] by simp
  have l: "load env0 [] cfg1 = Inr (cfg1\<lparr>s_values := [''c'' \<mapsto> ''3'', ''a'' \<mapsto> ''b=c'']\<rparr>)"
    using load_existing [OF p env0_flags(3) f, of "[]"] g a env0_flags
    by (simp add: cfg1_def process_line_skip)
  have ks: "keys_of_file (''a=b=c'' @ [NL] @ ''novalue'' @ [NL]) = {''a''}"
    using g line_key_split [of "''a''" "''b=c''"]
    by (simp add: keys_of_file_def line_key_def find_char_None [THEN iffD2])
  have "s_values (cfg1\<lparr>s_values := [''c'' \<mapsto> ''3'', ''a'' \<mapsto> ''b=c'']\<rparr>) ''c'' = s_values cfg1 ''c''"
    using load_keeps_other_keys [of env0 "''/home/u/.machine_spirit/config.ini''" "[]" cfg1
        "cfg1\<lparr>s_values := [''c'' \<mapsto> ''3'', ''a'' \<mapsto> ''b=c'']\<rparr>" "''c''"]
      p l f ks
    by simp
  with l ks show ?thesis by blast
qed

subsection \<open>Config: save, then load\<close>

lemma render_Cons:
  "m k = Some v \<Longrightarrow> render (k # ks) m = (k @ EQ # v) @ NL # render ks m"
  by (simp add: render_def entry_line_def)

lemma load_loop_step:
  "getline s = Some (l, r) \<Longrightarrow> load_loop s m = load_loop r (process_line l m)"
  by (simp add: load_loop.simps [of s])

lemma load_loop_Nil: "load_loop [] m = m"
  by (simp add: load_loop.simps[of "[]"] getline_Nil)

lemma load_loop_render:
  assumes "\<forall>k\<in>set ks. \<exists>v. m k = Some v \<and> EQ \<notin> set k \<and> NL \<notin> set k \<and> NL \<notin> set v"
  shows "load_loop (render ks m) acc = acc ++ (m |` set ks)"
  using assms
proof (induction ks arbitrary: acc)
  case Nil
  then show ?case by (simp add: render_def load_loop_Nil)
next
  case (Cons k ks)
  then obtain v where v: "m k = Some v" "EQ \<notin> set k" "NL \<notin> set k" "NL \<notin> set v"
    by auto
  have nl: "NL \<notin> set (k @ EQ # v)" using v by simp
  have "load_loop (render (k # ks) m) acc = load_loop (render ks m) (process_line (k @ EQ # v) acc)"
    using load_loop_step [OF getline_line [OF nl, of "render ks m"]] render_Cons [of m k v ks] v(1)
    by simp
  also have "\<dots> = load_loop (render ks m) (acc(k \<mapsto> v))"
    using v(2) by (simp add: process_line_split)
  also have "\<dots> = acc(k \<mapsto> v) ++ (m |` set ks)"
    using Cons.prems by (intro Cons.IH) simp
  also have "\<dots> = acc ++ (m |` set (k # ks))"
    using v(1) by (auto simp: map_add_def restrict_map_def fun_eq_iff split: option.splits)
  finally show ?case .
qed

text \<open>
  Claim C1. For a table whose keys and values contain no \<open>=\<close> and no newline,
  \<open>save\<close> and then \<open>load\<close> into an empty table give the table back, whatever the
  order in which \<open>save\<close> iterated. The home variable is set, the directory can be
  made and both streams open.
\<close>

theorem save_then_load_fresh:
  assumes "iteration_order ord (s_values w)"
    and "\<forall>k v. s_values w k = Some v \<longrightarrow> plain k \<and> plain v"
    and "home e = Some h" and "can_mkdir e" and "can_write e" and "can_read e"
  shows "\<exists>w1 w2. save e ord w = Inr w1 \<and>
           load e ord' (w1\<lparr>s_values := Map.empty\<rparr>) = Inr w2 \<and>
           s_values w2 = s_values w"
proof -
  let ?path = "h @ ''/.machine_spirit/config.ini''"
  let ?w1 = "w\<lparr>files := (files w)(?path \<mapsto> render ord (s_values w)),
                dirs := insert (parent_path ?path) (dirs w)\<rparr>"
  have p: "getConfigFilePath e = Inr ?path"
    using assms(3) by (rule getConfigFilePath_home)
  have 1: "save e ord w = Inr ?w1"
    using p assms(4,5) by (rule save_ok)
  have "\<forall>k\<in>set ord. \<exists>v. s_values w k = Some v \<and> EQ \<notin> set k \<and> NL \<notin> set k \<and> NL \<notin> set v"
    using assms(1,2) by (fastforce simp: iteration_order_def plain_def)
  then have "load_loop (render ord (s_values w)) Map.empty = Map.empty ++ (s_values w |` set ord)"
    by (rule load_loop_render)
  also have "\<dots> = s_values w"
    using assms(1) by (auto simp: iteration_order_def restrict_map_def fun_eq_iff)
  finally have "load e ord' (?w1\<lparr>s_values := Map.empty\<rparr>) = Inr (?w1\<lparr>s_values := s_values w\<rparr>)"
    using load_existing [OF p can_read_stat [OF assms(6)],
        of "?w1\<lparr>s_values := Map.empty\<rparr>" "render ord (s_values w)" ord'] assms(6)
    by (simp add: load_loop_fold)
  with 1 show ?thesis by force
qed

text \<open>The statement at a table of two entries, one with an empty value.\<close>

theorem save_then_load_fresh_witness:
  "\<exists>w1 w2. save env0 [''b'', ''a''] (cfg0\<lparr>s_values := [''a'' \<mapsto> ''1'', ''b'' \<mapsto> []]\<rparr>) = Inr w1 \<and>
           load env0 [] (w1\<lparr>s_values := Map.empty\<rparr>) = Inr w2 \<and>
           s_values w2 = [''a'' \<mapsto> ''1'', ''b'' \<mapsto> []]"
proof -
  let ?w = "cfg0\<lparr>s_values := [''a'' \<mapsto> ''1'', ''b'' \<mapsto> []]\<rparr>"
  have i: "iteration_order [''b'', ''a''] (s_values ?w)"
    by (auto simp: iteration_order_def)
  have c: "\<forall>k v. s_values ?w k = Some v \<longrightarrow> plain k \<and> plain v"
    by (auto simp: plain_def split: if_splits)
  have e: "home env0 = Some ''/home/u''" "can_mkdir env0" "can_write env0" "can_read env0"
    by (simp_all add: env0_def can_read_def can_write_def)
  show ?thesis
    using save_then_load_fresh [OF i c e, of "[]"] by simp
qed

subsection \<open>Config: load of a missing file\<close>

lemma render_lines:
  assumes "set ord \<subseteq> dom m"
  shows "render ord m =
    concat (map (\<lambda>(k, v). k @ [EQ] @ v @ [NL]) (map (\<lambda>k. (k, the (m k))) ord))"
  using assms by (induction ord) (auto simp: render_def entry_line_def)

lemma map_of_order:
  assumes "set ord = dom m"
  shows "map_of (map (\<lambda>k. (k, the (m k))) ord) = m"
proof
  fix x
  show "map_of (map (\<lambda>k. (k, the (m k))) ord) x = m x"
  proof (cases "x \<in> set ord")
    case True
    then have "map_of (map (\<lambda>k. (k, the (m k))) ord) x = Some (the (m x))"
      by (induction ord) auto
    moreover from True assms obtain v where "m x = Some v" by auto
    ultimately show ?thesis by simp
  next
    case False
    then have "map_of (map (\<lambda>k. (k, the (m k))) ord) x = None"
      by (simp add: map_of_eq_None_iff image_image)
    moreover from False assms have "m x = None" by auto
    ultimately show ?thesis by simp
  qed
qed

lemma save_entries:
  assumes "getConfigFilePath e = Inr path" and "can_mkdir e" and "can_write e"
    and "iteration_order ord (s_values w)"
  shows "\<exists>w' kvs. save e ord w = Inr w' \<and> s_values w' = s_values w \<and>
           map fst kvs = ord \<and> map_of kvs = s_values w \<and>
           files w' path = Some (concat (map (\<lambda>(k, v). k @ [EQ] @ v @ [NL]) kvs))"
proof -
  let ?kvs = "map (\<lambda>k. (k, the (s_values w k))) ord"
  let ?w' = "w\<lparr>files := (files w)(path \<mapsto> render ord (s_values w)),
                dirs := insert (parent_path path) (dirs w)\<rparr>"
  have o: "set ord = dom (s_values w)"
    using assms(4) by (simp add: iteration_order_def)
  have 1: "save e ord w = Inr ?w'"
    using assms(1-3) by (rule save_ok)
  have 2: "map fst ?kvs = ord" by (simp add: comp_def)
  have 3: "map_of ?kvs = s_values w" using o by (rule map_of_order)
  have 4: "files ?w' path = Some (concat (map (\<lambda>(k, v). k @ [EQ] @ v @ [NL]) ?kvs))"
    using render_lines [of ord "s_values w"] o by simp
  have 5: "s_values ?w' = s_values w" by simp
  from 1 2 3 4 5 show ?thesis by blast
qed

text \<open>
  Claim C4. When \<open>exists\<close> answers that the config file is not there, \<open>load\<close> is the
  call of \<open>save\<close>. Where the directory can be made and the stream opens, \<open>load\<close>
  returns, the table is left as it was, and the file then exists and holds the current
  table: one line \<open>key=value\<close> for each entry, in the order of the iteration. For an
  empty table the file is created empty and the table stays empty.
\<close>

theorem load_creates_missing_file:
  "getConfigFilePath e = Inr path \<and> fs_exists e path (files w) = Inr False \<longrightarrow>
     load e ord w = save e ord w \<and>
     (can_mkdir e \<and> can_write e \<and> iteration_order ord (s_values w) \<longrightarrow>
        (\<exists>w' kvs. load e ord w = Inr w' \<and> s_values w' = s_values w \<and>
           map fst kvs = ord \<and> map_of kvs = s_values w \<and>
           files w' path = Some (concat (map (\<lambda>(k, v). k @ [EQ] @ v @ [NL]) kvs)) \<and>
           (s_values w = Map.empty \<longrightarrow> files w' path = Some [] \<and> s_values w' = Map.empty)))"
proof (intro impI, elim conjE)
  assume p: "getConfigFilePath e = Inr path" and x: "fs_exists e path (files w) = Inr False"
  have ls: "load e ord w = save e ord w"
    using p x by (simp add: load_def)
  have "\<exists>w' kvs. load e ord w = Inr w' \<and> s_values w' = s_values w \<and>
           map fst kvs = ord \<and> map_of kvs = s_values w \<and>
           files w' path = Some (concat (map (\<lambda>(k, v). k @ [EQ] @ v @ [NL]) kvs)) \<and>
           (s_values w = Map.empty \<longrightarrow> files w' path = Some [] \<and> s_values w' = Map.empty)"
    if c: "can_mkdir e" "can_write e" "iteration_order ord (s_values w)"
  proof -
    from save_entries [OF p c] obtain w' kvs where s: "save e ord w = Inr w'"
      "s_values w' = s_values w" "map fst kvs = ord" "map_of kvs = s_values w"
      "files w' path = Some (concat (map (\<lambda>(k, v). k @ [EQ] @ v @ [NL]) kvs))"
      by blast
    have "kvs = []" if "s_values w = Map.empty"
    proof (cases kvs)
      case Nil
      then show ?thesis .
    next
      case (Cons a as)
      then have "map_of kvs (fst a) \<noteq> None" by (cases a) simp
      with s(4) that show ?thesis by simp
    qed
    with s ls show ?thesis by auto
  qed
  with ls show "load e ord w = save e ord w \<and>
     (can_mkdir e \<and> can_write e \<and> iteration_order ord (s_values w) \<longrightarrow>
        (\<exists>w' kvs. load e ord w = Inr w' \<and> s_values w' = s_values w \<and>
           map fst kvs = ord \<and> map_of kvs = s_values w \<and>
           files w' path = Some (concat (map (\<lambda>(k, v). k @ [EQ] @ v @ [NL]) kvs)) \<and>
           (s_values w = Map.empty \<longrightarrow> files w' path = Some [] \<and> s_values w' = Map.empty)))"
    by blast
qed

text \<open>
  The statement at the table \<open>k\<close> \<open>\<mapsto>\<close> \<open>v\<close> with no file on disk, where the file
  written is the line \<open>k=v\<close>, and at the empty table, where it is empty.
\<close>

theorem load_creates_missing_file_witness:
  "load env0 [''k''] (cfg0\<lparr>s_values := [''k'' \<mapsto> ''v'']\<rparr>) =
     save env0 [''k''] (cfg0\<lparr>s_values := [''k'' \<mapsto> ''v'']\<rparr>) \<and>
   (\<exists>w'. load env0 [''k''] (cfg0\<lparr>s_values := [''k'' \<mapsto> ''v'']\<rparr>) = Inr w' \<and>
      s_values w' = [''k'' \<mapsto> ''v''] \<and>
      files w' ''/home/u/.machine_spirit/config.ini'' = Some (''k=v'' @ [NL])) \<and>
   (\<exists>w'. load env0 [] cfg0 = Inr w' \<and>
      files w' ''/home/u/.machine_spirit/config.ini'' = Some [] \<and> s_values w' = Map.empty)"
proof -
  let ?path = "''/home/u/.machine_spirit/config.ini''"
  let ?wk = "cfg0\<lparr>s_values := [''k'' \<mapsto> ''v'']\<rparr>"
  have xk: "fs_exists env0 ?path (files ?wk) = Inr False"
    and x0: "fs_exists env0 ?path (files cfg0) = Inr False"
    using env0_flags(3) by (simp_all add: fs_exists_def cfg0_def)
  have ik: "iteration_order [''k''] (s_values ?wk)"
    and i0: "iteration_order [] (s_values cfg0)"
    by (simp_all add: iteration_order_def cfg0_def)
  have m0: "s_values cfg0 = Map.empty"
    by (simp add: cfg0_def)
  note T = load_creates_missing_file [of env0 ?path ?wk "[''k'']"]
  have T1: "load env0 [''k''] ?wk = save env0 [''k''] ?wk \<and>
     (can_mkdir env0 \<and> can_write env0 \<and> iteration_order [''k''] (s_values ?wk) \<longrightarrow>
        (\<exists>w' kvs. load env0 [''k''] ?wk = Inr w' \<and> s_values w' = s_values ?wk \<and>
           map fst kvs = [''k''] \<and> map_of kvs = s_values ?wk \<and>
           files w' ?path = Some (concat (map (\<lambda>(k, v). k @ [EQ] @ v @ [NL]) kvs)) \<and>
           (s_values ?wk = Map.empty \<longrightarrow> files w' ?path = Some [] \<and> s_values w' = Map.empty)))"
    by (rule mp [OF T conjI [OF env0_path xk]])
  then have k1: "load env0 [''k''] ?wk = save env0 [''k''] ?wk"
    by (rule conjunct1)
  have "\<exists>w' kvs. load env0 [''k''] ?wk = Inr w' \<and> s_values w' = s_values ?wk \<and>
           map fst kvs = [''k''] \<and> map_of kvs = s_values ?wk \<and>
           files w' ?path = Some (concat (map (\<lambda>(k, v). k @ [EQ] @ v @ [NL]) kvs)) \<and>
           (s_values ?wk = Map.empty \<longrightarrow> files w' ?path = Some [] \<and> s_values w' = Map.empty)"
    by (rule mp [OF conjunct2 [OF T1]]) (intro conjI env0_flags ik)
  then obtain w' kvs where k: "load env0 [''k''] ?wk = Inr w'" "s_values w' = s_values ?wk"
    "map fst kvs = [''k'']" "map_of kvs = s_values ?wk"
    "files w' ?path = Some (concat (map (\<lambda>(k, v). k @ [EQ] @ v @ [NL]) kvs))"
    by (elim exE conjE)
  from k(3) obtain v where kv: "kvs = [(''k'', v)]"
    by (cases kvs) auto
  with k(4) have "[''k'' \<mapsto> v] ''k'' = [''k'' \<mapsto> ''v''] ''k''"
    by simp
  then have "v = ''v''"
    by simp
  with kv k(5) have "files w' ?path = Some (''k=v'' @ [NL])"
    by simp
  with k have A: "\<exists>w'. load env0 [''k''] ?wk = Inr w' \<and> s_values w' = [''k'' \<mapsto> ''v''] \<and>
      files w' ?path = Some (''k=v'' @ [NL])"
    by auto
  from load_creates_missing_file [of env0 ?path cfg0 "[]"] env0_path x0 env0_flags i0 m0
  have B: "\<exists>w'. load env0 [] cfg0 = Inr w' \<and> files w' ?path = Some [] \<and> s_values w' = Map.empty"
    by blast
  from k1 A B show ?thesis by blast
qed

subsection \<open>Config: load, then load again\<close>






end
